theory Spec2Isabelle
  imports Main
begin

section \<open>JavaScript values and the object store\<close>

text \<open>
  The module \<^verbatim>\<open>src/index.js\<close> exports the component \<^verbatim>\<open>Slot\<close> and the function
  \<^verbatim>\<open>findSlots\<close>. Both work on React children: primitives, \<^verbatim>\<open>null\<close>,
  \<^verbatim>\<open>undefined\<close>, and references to objects (React elements and arrays). Objects live
  in a store, so that the copy made by \<^verbatim>\<open>children.slice()\<close> and the write
  \<^verbatim>\<open>children[i] = null\<close> are visible as what they are: an allocation and an update of
  one address.

  Scope of the model: numbers are integers (the code never inspects a number); arrays are
  dense; an element's \<^verbatim>\<open>props\<close> are flattened into the two attributes the code reads,
  \<^verbatim>\<open>name\<close> and \<^verbatim>\<open>children\<close>; \<^verbatim>\<open>name\<close> is a string or absent, as the JSDoc of
  \<^verbatim>\<open>Slot\<close> declares it. A reference to an address that is not in the store denotes no
  object: it is neither an array nor an element.
\<close>

type_synonym addr = nat

datatype val = Undefined | Null | Bool bool | Num int | Str string | Ref addr

text \<open>
  The \<^verbatim>\<open>type\<close> of a React element: the function \<^verbatim>\<open>Slot\<close> itself (compared by
  reference in \<^verbatim>\<open>child.type === Slot\<close>), \<^verbatim>\<open>React.Fragment\<close>, or anything else (a host
  tag such as \<^verbatim>\<open>'span'\<close>, another component).
\<close>

datatype component = SlotComponent | Fragment | Other string

record props =
  name :: "string option"
  children :: val

datatype obj = Array "val list" | Element component "string option" props

type_synonym heap = "obj list"

definition lookup :: "heap \<Rightarrow> addr \<Rightarrow> obj option" where
  "lookup h a = (if a < length h then Some (h ! a) else None)"

definition alloc :: "heap \<Rightarrow> obj \<Rightarrow> heap \<times> addr" where
  "alloc h ob = (h @ [ob], length h)"

text \<open>\<^verbatim>\<open>Array.isArray(v)\<close>.\<close>

fun isArray :: "heap \<Rightarrow> val \<Rightarrow> bool" where
  "isArray h (Ref a) = (case lookup h a of Some (Array xs) \<Rightarrow> True | _ \<Rightarrow> False)"
| "isArray h _ = False"

text \<open>The elements of the array at an address (nothing for any other object).\<close>

definition elems :: "heap \<Rightarrow> addr \<Rightarrow> val list" where
  "elems h a = (case lookup h a of Some (Array xs) \<Rightarrow> xs | _ \<Rightarrow> [])"

text \<open>\<^verbatim>\<open>arr[i]\<close>: reading past the end gives \<^verbatim>\<open>undefined\<close>.\<close>

definition get :: "heap \<Rightarrow> addr \<Rightarrow> nat \<Rightarrow> val" where
  "get h a i = (if i < length (elems h a) then elems h a ! i else Undefined)"

text \<open>
  \<^verbatim>\<open>arr[i] = v\<close>: in range it replaces the element; past the end JavaScript extends the
  array (the gap is filled with \<^verbatim>\<open>Undefined\<close> here). \<^verbatim>\<open>findSlots\<close> only writes at the
  index it is visiting.
\<close>

definition put :: "heap \<Rightarrow> addr \<Rightarrow> nat \<Rightarrow> val \<Rightarrow> heap" where
  "put h a i v =
     (case lookup h a of
        Some (Array xs) \<Rightarrow>
          (if i < length xs then h[a := Array (xs[i := v])]
           else h[a := Array (xs @ replicate (i - length xs) Undefined @ [v])])
      | _ \<Rightarrow> h)"

text \<open>\<^verbatim>\<open>arr.slice()\<close>: the elements of a fresh shallow copy.\<close>

fun slice :: "heap \<Rightarrow> val \<Rightarrow> val list" where
  "slice h (Ref a) = elems h a"
| "slice h _ = []"


section \<open>The slot map\<close>

text \<open>
  The accumulator \<^verbatim>\<open>slots\<close> starts as the object literal \<^verbatim>\<open>{}\<close>: no own properties,
  prototype \<^verbatim>\<open>Object.prototype\<close>. The module is an ES module, so its code is strict: a
  rejected write throws a \<^verbatim>\<open>TypeError\<close>.

  An assignment \<^verbatim>\<open>slots[k] = v\<close> overwrites the own property \<^verbatim>\<open>k\<close> when there is one
  (every own property of \<^verbatim>\<open>slots\<close> is a writable data property). Otherwise the write
  travels up the prototype chain:
  \<^item> with prototype \<^verbatim>\<open>null\<close> nothing is found and the own property is created;
  \<^item> \<^verbatim>\<open>Object.prototype\<close> holds writable data properties, which let the own property be
    created, and the accessor \<^verbatim>\<open>__proto__\<close>, whose setter replaces the prototype when
    \<^verbatim>\<open>v\<close> is an object or \<^verbatim>\<open>null\<close> and does nothing otherwise;
  \<^item> once a marker named \<^verbatim>\<open>__proto__\<close> has made an object of the store the prototype
    (its chain ends in \<^verbatim>\<open>Object.prototype\<close>), that object is asked first. A key it holds
    as a non-writable data property, or as an accessor without a setter, rejects the
    write. Every own key of a frozen object is such a key, and React's development
    build freezes each element and each children array; its production build freezes
    nothing.

  Which keys an object of the store rejects is not recorded in the store. It is the
  parameter \<open>ro\<close> of the functions below (\<open>ro a k\<close>: the object at address \<open>a\<close> rejects a
  write of key \<open>k\<close>), and every theorem holds for every \<open>ro\<close>, so for both builds of
  React and for any set of own keys an element may have.
\<close>

type_synonym host = "addr \<Rightarrow> string \<Rightarrow> bool"

datatype prototype = ObjectPrototype | NullPrototype | ObjectAt addr

record slots =
  own :: "string \<rightharpoonup> val"
  proto :: prototype

datatype error = MissingSlotName | TypeError

definition empty_object :: slots where
  "empty_object = \<lparr>own = Map.empty, proto = ObjectPrototype\<rparr>"

text \<open>Creating or overwriting an own property.\<close>

definition define_own :: "slots \<Rightarrow> string \<Rightarrow> val \<Rightarrow> slots" where
  "define_own s k v = s\<lparr>own := (own s)(k \<mapsto> v)\<rparr>"

text \<open>The setter of \<^verbatim>\<open>Object.prototype.__proto__\<close>.\<close>

definition set_prototype :: "slots \<Rightarrow> val \<Rightarrow> slots" where
  "set_prototype s v =
     (case v of
        Ref a \<Rightarrow> s\<lparr>proto := ObjectAt a\<rparr>
      | Null \<Rightarrow> s\<lparr>proto := NullPrototype\<rparr>
      | _ \<Rightarrow> s)"

definition assign :: "host \<Rightarrow> slots \<Rightarrow> string \<Rightarrow> val \<Rightarrow> error + slots" where
  "assign ro s k v =
     (if own s k \<noteq> None then Inr (define_own s k v)
      else case proto s of
        NullPrototype \<Rightarrow> Inr (define_own s k v)
      | ObjectPrototype \<Rightarrow>
          if k = ''__proto__'' then Inr (set_prototype s v) else Inr (define_own s k v)
      | ObjectAt a \<Rightarrow>
          if ro a k then Inl TypeError
          else if k = ''__proto__'' then Inr (set_prototype s v)
          else Inr (define_own s k v))"

section \<open>The component Slot\<close>

text \<open>
  \<^verbatim>\<open>Slot({ name, children })\<close> returns
  \<^verbatim>\<open><React.Fragment key={`slot#${name}`}>{children}</React.Fragment>\<close>: an element of
  type \<^verbatim>\<open>Fragment\<close> whose only prop is \<^verbatim>\<open>children\<close>. The template literal prints an
  absent name as \<^verbatim>\<open>undefined\<close>.
\<close>

definition Slot :: "props \<Rightarrow> obj" where
  "Slot p =
     Element Fragment
       (Some (''slot#'' @ (case name p of None \<Rightarrow> ''undefined'' | Some n \<Rightarrow> n)))
       \<lparr>name = None, children = children p\<rparr>"

section \<open>findSlots\<close>

text \<open>
  The callback of \<^verbatim>\<open>children.reduce\<close>, with \<^verbatim>\<open>w\<close> the address of the array
  \<^verbatim>\<open>children\<close> it closes over:
  \<^verbatim>\<open>
  (slots, child, i) => {
    if (child.type === Slot) {
      if (!child.props.name) throw new Error('Prop "name" is required for Slot.')
      slots[child.props.name] = child.props.children
      children[i] = null
    }
    return slots
  }
  \<close>
  Reading \<^verbatim>\<open>child.type\<close> throws a \<^verbatim>\<open>TypeError\<close> when \<^verbatim>\<open>child\<close> is \<^verbatim>\<open>null\<close> or
  \<^verbatim>\<open>undefined\<close>; on any other primitive and on an array it is \<^verbatim>\<open>undefined\<close>. The error
  thrown for a falsy name is called \<open>MissingSlotName\<close>. A rejected write to \<^verbatim>\<open>slots\<close>
  throws before the position is nulled. The store comes back in every case.
\<close>

definition callback ::
  "host \<Rightarrow> addr \<Rightarrow> heap \<Rightarrow> slots \<Rightarrow> val \<Rightarrow> nat \<Rightarrow> heap \<times> (error + slots)" where
  "callback ro w h acc child i =
     (case child of
        Undefined \<Rightarrow> (h, Inl TypeError)
      | Null \<Rightarrow> (h, Inl TypeError)
      | Ref a \<Rightarrow>
          (case lookup h a of
             Some (Element t k p) \<Rightarrow>
               (if t = SlotComponent then
                  (case name p of
                     None \<Rightarrow> (h, Inl MissingSlotName)
                   | Some n \<Rightarrow>
                       (if n = [] then (h, Inl MissingSlotName)
                        else (case assign ro acc n (children p) of
                                Inl e \<Rightarrow> (h, Inl e)
                              | Inr acc' \<Rightarrow> (put h w i Null, Inr acc'))))
                else (h, Inr acc))
           | _ \<Rightarrow> (h, Inr acc))
      | _ \<Rightarrow> (h, Inr acc))"

text \<open>
  \<^verbatim>\<open>children.reduce(callback, {})\<close> visits the indices in order; each element is read
  from the array when its index is reached. A throw ends the loop.
\<close>

fun reduce :: "host \<Rightarrow> addr \<Rightarrow> nat list \<Rightarrow> heap \<Rightarrow> slots \<Rightarrow> heap \<times> (error + slots)" where
  "reduce ro w [] h acc = (h, Inr acc)"
| "reduce ro w (i # ks) h acc =
     (case callback ro w h acc (get h w i) i of
        (h', Inl e) \<Rightarrow> (h', Inl e)
      | (h', Inr acc') \<Rightarrow> reduce ro w ks h' acc')"

text \<open>
  \<^verbatim>\<open>
  export function findSlots (children) {
    if (!Array.isArray(children)) children = [children]
    else children = children.slice()
    const slots = children.reduce(..., {})
    slots.default = children.filter((child) => child !== null)
    return slots
  }
  \<close>
  The working array is allocated at \<open>w\<close>, the array of the default group at \<open>d\<close>, before
  the write to \<^verbatim>\<open>slots.default\<close>. The result is the final store with either the error
  thrown or the slot map.
\<close>

definition findSlots :: "host \<Rightarrow> heap \<Rightarrow> val \<Rightarrow> heap \<times> (error + slots)" where
  "findSlots ro h kids =
     (let (h1, w) = alloc h (Array (if \<not> isArray h kids then [kids] else slice h kids)) in
      case reduce ro w [0..<length (elems h1 w)] h1 empty_object of
        (h2, Inl e) \<Rightarrow> (h2, Inl e)
      | (h2, Inr acc) \<Rightarrow>
          (let (h3, d) = alloc h2 (Array (filter (\<lambda>child. child \<noteq> Null) (elems h2 w)))
           in (h3, assign ro acc ''default'' (Ref d))))"

section \<open>Vocabulary of the properties\<close>

text \<open>\<^verbatim>\<open>null\<close> and \<^verbatim>\<open>undefined\<close>: the two values on which a property read throws.\<close>

definition nullish :: "val \<Rightarrow> bool" where
  "nullish v = (v = Null \<or> v = Undefined)"

text \<open>
  A Slot marker is a reference to an element whose type is the component \<^verbatim>\<open>Slot\<close>;
  \<open>marker\<close> gives its props.
\<close>

fun marker :: "heap \<Rightarrow> val \<Rightarrow> props option" where
  "marker h (Ref a) =
     (case lookup h a of
        Some (Element t k p) \<Rightarrow> if t = SlotComponent then Some p else None
      | _ \<Rightarrow> None)"
| "marker h _ = None"

definition is_marker :: "heap \<Rightarrow> val \<Rightarrow> bool" where
  "is_marker h v = (marker h v \<noteq> None)"

text \<open>A name that is absent or the empty string.\<close>

definition unnamed :: "props \<Rightarrow> bool" where
  "unnamed p = (case name p of None \<Rightarrow> True | Some n \<Rightarrow> n = [])"

definition bad_marker :: "heap \<Rightarrow> val \<Rightarrow> bool" where
  "bad_marker h v = (case marker h v of None \<Rightarrow> False | Some p \<Rightarrow> unnamed p)"

text \<open>A marker named \<^verbatim>\<open>__proto__\<close>: the only way the prototype of the slot map changes.\<close>

definition proto_marker :: "heap \<Rightarrow> val \<Rightarrow> bool" where
  "proto_marker h v =
     (case marker h v of None \<Rightarrow> False | Some p \<Rightarrow> name p = Some ''__proto__'')"

text \<open>The sequence \<^verbatim>\<open>findSlots\<close> works on after its first two lines.\<close>

definition normalized :: "heap \<Rightarrow> val \<Rightarrow> val list" where
  "normalized h kids = (if \<not> isArray h kids then [kids] else slice h kids)"

text \<open>A sequence with every marker position replaced by \<^verbatim>\<open>null\<close>.\<close>

definition nullified :: "heap \<Rightarrow> val list \<Rightarrow> val list" where
  "nullified h xs = map (\<lambda>x. if is_marker h x then Null else x) xs"

text \<open>A value that is not a dangling reference.\<close>

definition allocated :: "heap \<Rightarrow> val \<Rightarrow> bool" where
  "allocated h v = (case v of Ref b \<Rightarrow> b < length h | _ \<Rightarrow> True)"

text \<open>
  The loop as a function of the sequence alone: the working array it leaves behind and
  the error or the accumulated slot map. \<open>reduce_scan\<close> below proves that the loop over
  the store computes exactly this.
\<close>

fun scan :: "host \<Rightarrow> heap \<Rightarrow> slots \<Rightarrow> val list \<Rightarrow> val list \<times> (error + slots)" where
  "scan ro h acc [] = ([], Inr acc)"
| "scan ro h acc (c # cs) =
     (if nullish c then (c # cs, Inl TypeError)
      else case marker h c of
        None \<Rightarrow> (case scan ro h acc cs of (ys, r) \<Rightarrow> (c # ys, r))
      | Some p \<Rightarrow>
          (case name p of
             None \<Rightarrow> (c # cs, Inl MissingSlotName)
           | Some n \<Rightarrow>
               if n = [] then (c # cs, Inl MissingSlotName)
               else (case assign ro acc n (children p) of
                       Inl e \<Rightarrow> (c # cs, Inl e)
                     | Inr acc' \<Rightarrow>
                         (case scan ro h acc' cs of (ys, r) \<Rightarrow> (Null # ys, r)))))"

section \<open>Example store and hosts\<close>

text \<open>
  The example of the source's documentation and variations of it. Addresses 0 to 4, 6 to
  8, 20 and 21 hold elements, the others hold children arrays; the array at 5 is
  \<^verbatim>\<open>[<Slot name="foo"><span>foo</span></Slot>, <Slot name="bar">...</Slot>, <span>baz</span>]\<close>.
\<close>

definition span :: "string \<Rightarrow> obj" where
  "span text = Element (Other ''span'') None \<lparr>name = None, children = Str text\<rparr>"

definition slot :: "string \<Rightarrow> val \<Rightarrow> obj" where
  "slot n c = Element SlotComponent None \<lparr>name = Some n, children = c\<rparr>"

definition example_store :: heap where
  "example_store =
     [span ''foo'', slot ''foo'' (Ref 0), span ''bar'', slot ''bar'' (Ref 2), span ''baz'',
      Array [Ref 1, Ref 3, Ref 4],
      slot ''foo'' (Str ''second''), slot [] (Ref 0), slot ''default'' (Ref 0),
      Array [Ref 4, Ref 1, Str ''text''],
      Array [Ref 1, Null],
      Array [Null, Ref 7],
      Array [Ref 4, Ref 7, Ref 1],
      Array [Ref 4, Str ''text'', Num 7],
      Array [Null],
      Array [Str ''text'', Undefined],
      Array [Ref 1, Ref 4, Ref 6, Ref 3],
      Array [Ref 4, Ref 8, Str ''text''],
      Array [Ref 4],
      Array [Ref 0, Ref 3, Ref 2, Ref 4],
      slot ''__proto__'' (Ref 0), slot ''type'' (Str ''text''),
      Array [Ref 20, Ref 21],
      Array [Ref 20, Ref 21, Ref 7]]"

text \<open>
  Two hosts. Under React's production build no object of the store rejects a write. Under
  its development build every element is frozen, so it rejects a write of each key it
  owns (the build freezes children arrays as well; this example host leaves them out).
\<close>

definition production :: host where
  "production a k = False"

definition development :: "heap \<Rightarrow> host" where
  "development h a k =
     (case lookup h a of
        Some (Element t key p) \<Rightarrow>
          k \<in> set [''$$typeof'', ''type'', ''key'', ''ref'', ''props'', ''_owner'', ''_store'']
      | _ \<Rightarrow> False)"

section \<open>The loop over the store computes the scan\<close>

lemma lookup_append_old: "a < length h \<Longrightarrow> lookup (h @ g) a = lookup h a"
  by (simp add: lookup_def nth_append)

lemma lookup_append_new: "lookup (h @ [ob]) (length h) = Some ob"
  by (simp add: lookup_def)

lemma lookup_beyond: "length h \<le> a \<Longrightarrow> lookup h a = None"
  by (simp add: lookup_def)

text \<open>Allocating the working array turns no value into a marker and no marker into something else.\<close>

lemma marker_working_copy: "marker (h @ [Array ys]) v = marker h v"
proof (cases v)
  case (Ref a)
  consider "a < length h" | "a = length h" | "length h < a" by linarith
  then show ?thesis
  proof cases
    case 1
    then show ?thesis using Ref by (simp add: lookup_append_old)
  next
    case 2
    then show ?thesis using Ref by (simp add: lookup_append_new lookup_beyond)
  next
    case 3
    then show ?thesis using Ref by (simp add: lookup_beyond)
  qed
qed simp_all

lemma elems_working_copy: "elems (h @ [Array ys]) (length h) = ys"
  by (simp add: elems_def lookup_append_new)

lemma get_working_copy: "get (h @ [Array (pre @ c # cs)]) (length h) (length pre) = c"
  by (simp add: get_def elems_working_copy)

lemma put_working_copy:
  "put (h @ [Array (pre @ c # cs)]) (length h) (length pre) v = h @ [Array (pre @ v # cs)]"
  by (simp add: put_def lookup_append_new)

lemma callback_marker:
  "callback ro w h acc c i =
     (if nullish c then (h, Inl TypeError)
      else case marker h c of
        None \<Rightarrow> (h, Inr acc)
      | Some p \<Rightarrow>
          (case name p of
             None \<Rightarrow> (h, Inl MissingSlotName)
           | Some n \<Rightarrow>
               if n = [] then (h, Inl MissingSlotName)
               else (case assign ro acc n (children p) of
                       Inl e \<Rightarrow> (h, Inl e)
                     | Inr acc' \<Rightarrow> (put h w i Null, Inr acc'))))"
  by (cases c) (auto simp: callback_def nullish_def split: option.splits obj.splits)

text \<open>
  The invariant of the loop: with \<open>pre\<close> the part of the working array already visited
  and \<open>cs\<close> the part still ahead, the remaining iterations change the array to
  \<open>pre\<close> followed by the scan of \<open>cs\<close>, and nothing else in the store.
\<close>

lemma reduce_scan:
  "reduce ro (length h) [length pre..<length pre + length cs] (h @ [Array (pre @ cs)]) acc =
     (case scan ro h acc cs of (ys, r) \<Rightarrow> (h @ [Array (pre @ ys)], r))"
proof (induction cs arbitrary: pre acc)
  case Nil
  then show ?case by simp
next
  case (Cons c cs)
  define ks where "ks = [length (pre @ [c])..<length (pre @ [c]) + length cs]"
  have idx: "[length pre..<length pre + length (c # cs)] = length pre # ks"
    using upt_conv_Cons [of "length pre" "length pre + Suc (length cs)"]
    by (simp add: ks_def)
  have step: "reduce ro (length h) ks (h @ [Array (pre @ v # cs)]) acc' =
     (case scan ro h acc' cs of (ys, r) \<Rightarrow> (h @ [Array (pre @ v # ys)], r))" for v acc'
    using Cons.IH [of "pre @ [v]" acc'] by (simp add: ks_def)
  show ?case
    unfolding idx
    by (simp add: get_working_copy callback_marker marker_working_copy put_working_copy step
        split: option.splits prod.splits sum.splits)
qed

lemma findSlots_scan:
  "findSlots ro h kids =
     (case scan ro h empty_object (normalized h kids) of
        (ys, Inl e) \<Rightarrow> (h @ [Array ys], Inl e)
      | (ys, Inr acc) \<Rightarrow>
          (h @ [Array ys, Array (filter (\<lambda>child. child \<noteq> Null) ys)],
           assign ro acc ''default'' (Ref (Suc (length h)))))"
proof -
  have "reduce ro (length h) [0..<length (normalized h kids)]
      (h @ [Array (normalized h kids)]) acc =
     (case scan ro h acc (normalized h kids) of (ys, r) \<Rightarrow> (h @ [Array ys], r))" for acc
    using reduce_scan [of ro h "[]" "normalized h kids" acc] by simp
  then show ?thesis
    by (simp add: findSlots_def alloc_def elems_working_copy normalized_def [symmetric]
        elems_def lookup_def nth_append
        split: prod.splits sum.splits)
qed

section \<open>Properties of the assignment\<close>

lemma assign_plain:
  "proto acc = ObjectPrototype \<Longrightarrow> k \<noteq> ''__proto__'' \<Longrightarrow>
   assign ro acc k v = Inr (define_own acc k v)"
  by (simp add: assign_def)

lemma assign_error:
  "assign ro acc k v = Inl e \<Longrightarrow> e = TypeError \<and> proto acc \<noteq> ObjectPrototype"
  by (auto simp: assign_def split: if_splits prototype.splits)

lemma assign_proto:
  "assign ro acc k v = Inr acc' \<Longrightarrow> k \<noteq> ''__proto__'' \<Longrightarrow> proto acc' = proto acc"
  by (auto simp: assign_def define_own_def split: if_splits prototype.splits)

lemma own_assign_other:
  "assign ro acc n v = Inr acc' \<Longrightarrow> n \<noteq> k \<Longrightarrow> own acc' k = own acc k"
  by (auto simp: assign_def define_own_def set_prototype_def
      split: if_splits prototype.splits val.splits)

lemma own_assign_same:
  "assign ro acc k v = Inr acc' \<Longrightarrow> k \<noteq> ''__proto__'' \<Longrightarrow> own acc' k = Some v"
  by (auto simp: assign_def define_own_def split: if_splits prototype.splits)

section \<open>Properties of the scan\<close>

lemma marker_not_nullish: "marker h m = Some p \<Longrightarrow> \<not> nullish m"
  by (cases m) (simp_all add: nullish_def)

lemma scan_plain:
  "\<forall>x\<in>set xs. \<not> is_marker h x \<and> \<not> nullish x \<Longrightarrow> scan ro h acc xs = (xs, Inr acc)"
  by (induction xs) (simp_all add: is_marker_def)

lemma scan_append:
  "scan ro h acc (xs @ ys) =
     (case scan ro h acc xs of
        (xs', Inl e) \<Rightarrow> (xs' @ ys, Inl e)
      | (xs', Inr acc') \<Rightarrow> (case scan ro h acc' ys of (ys', r) \<Rightarrow> (xs' @ ys', r)))"
  by (induction xs arbitrary: acc) (auto split: option.splits prod.splits sum.splits)

lemma scan_named_marker:
  "marker h m = Some p \<Longrightarrow> name p = Some n \<Longrightarrow> n \<noteq> [] \<Longrightarrow>
   scan ro h acc (m # ys) =
     (case assign ro acc n (children p) of
        Inl e \<Rightarrow> (m # ys, Inl e)
      | Inr acc' \<Rightarrow> (case scan ro h acc' ys of (ys', r) \<Rightarrow> (Null # ys', r)))"
  by (simp add: marker_not_nullish)

lemma scan_bad_marker:
  "bad_marker h m \<Longrightarrow> scan ro h acc (m # ys) = (m # ys, Inl MissingSlotName)"
  by (cases m) (auto simp: bad_marker_def unnamed_def nullish_def split: option.splits)

text \<open>
  Without a marker named \<^verbatim>\<open>__proto__\<close> the prototype stays \<^verbatim>\<open>Object.prototype\<close> and no
  write is rejected.
\<close>

lemma scan_ok:
  "proto acc = ObjectPrototype \<Longrightarrow>
   \<forall>x\<in>set xs. \<not> nullish x \<and> \<not> bad_marker h x \<and> \<not> proto_marker h x \<Longrightarrow>
   \<exists>acc'. scan ro h acc xs = (nullified h xs, Inr acc') \<and> proto acc' = ObjectPrototype"
proof (induction xs arbitrary: acc)
  case Nil
  then show ?case by (simp add: nullified_def)
next
  case (Cons c cs)
  show ?case
  proof (cases "marker h c")
    case None
    obtain acc' where "scan ro h acc cs = (nullified h cs, Inr acc')"
        "proto acc' = ObjectPrototype"
      using Cons.IH [of acc] Cons.prems by auto
    then show ?thesis
      using None Cons.prems by (simp add: nullified_def is_marker_def)
  next
    case (Some p)
    then obtain n where n: "name p = Some n" "n \<noteq> []" "n \<noteq> ''__proto__''"
      using Cons.prems(2)
      by (auto simp: bad_marker_def proto_marker_def unnamed_def split: option.splits)
    have wr: "assign ro acc n (children p) = Inr (define_own acc n (children p))"
      using Cons.prems(1) n(3) by (rule assign_plain)
    have "proto (define_own acc n (children p)) = ObjectPrototype"
      using Cons.prems(1) by (simp add: define_own_def)
    then obtain acc' where "scan ro h (define_own acc n (children p)) cs = (nullified h cs, Inr acc')"
        "proto acc' = ObjectPrototype"
      using Cons.IH Cons.prems(2) by fastforce
    then show ?thesis
      using Some n wr Cons.prems(2) by (simp add: nullified_def is_marker_def)
  qed
qed

lemma scan_success:
  "scan ro h acc xs = (ys, Inr acc') \<Longrightarrow>
   ys = nullified h xs \<and> (\<forall>x\<in>set xs. \<not> nullish x \<and> \<not> bad_marker h x)"
proof (induction xs arbitrary: acc ys)
  case Nil
  then show ?case by (simp add: nullified_def)
next
  case (Cons c cs)
  then show ?case
    by (fastforce simp: nullified_def is_marker_def bad_marker_def unnamed_def
        split: if_splits option.splits prod.splits sum.splits)
qed

lemma filter_nullified:
  "\<forall>x\<in>set xs. \<not> nullish x \<Longrightarrow>
   filter (\<lambda>child. child \<noteq> Null) (nullified h xs) = filter (\<lambda>x. \<not> is_marker h x) xs"
  by (induction xs) (auto simp: nullified_def nullish_def)

lemma filter_not_null:
  "\<forall>x\<in>set xs. \<not> nullish x \<Longrightarrow> filter (\<lambda>child. child \<noteq> Null) xs = xs"
  by (induction xs) (auto simp: nullish_def)

text \<open>One step of the scan at an element that is neither null, undefined nor a nameless marker.\<close>

lemma scan_step:
  assumes "\<not> nullish c" and "\<not> bad_marker h c"
  shows "(marker h c = None \<and> scan ro h acc (c # cs) =
            (case scan ro h acc cs of (ys, r) \<Rightarrow> (c # ys, r))) \<or>
         (\<exists>p n. marker h c = Some p \<and> name p = Some n \<and> n \<noteq> [] \<and>
            scan ro h acc (c # cs) =
              (case assign ro acc n (children p) of
                 Inl e \<Rightarrow> (c # cs, Inl e)
               | Inr acc' \<Rightarrow> (case scan ro h acc' cs of (ys, r) \<Rightarrow> (Null # ys, r))))"
proof (cases "marker h c")
  case None
  then show ?thesis using assms(1) by simp
next
  case (Some p)
  then obtain n where "name p = Some n" "n \<noteq> []"
    using assms(2) by (auto simp: bad_marker_def unnamed_def split: option.splits)
  then show ?thesis using Some assms(1) by simp
qed

lemma scan_error:
  "scan ro h acc xs = (ys, Inl e) \<Longrightarrow>
   (e = TypeError \<and>
      (list_ex nullish xs \<or> list_ex (proto_marker h) xs \<or> proto acc \<noteq> ObjectPrototype)) \<or>
   (e = MissingSlotName \<and> list_ex (bad_marker h) xs)"
proof (induction xs arbitrary: acc ys)
  case Nil
  then show ?case by simp
next
  case (Cons c cs)
  show ?case
  proof (cases "nullish c \<or> bad_marker h c")
    case True
    then show ?thesis
      using Cons.prems
      by (auto simp: bad_marker_def unnamed_def split: if_splits option.splits)
  next
    case False
    then have "\<not> nullish c" "\<not> bad_marker h c"
      by simp_all
    from scan_step [OF this, of ro acc cs] show ?thesis
    proof (elim disjE exE conjE)
      assume "scan ro h acc (c # cs) = (case scan ro h acc cs of (ys, r) \<Rightarrow> (c # ys, r))"
      then obtain ys1 where "scan ro h acc cs = (ys1, Inl e)"
        using Cons.prems by (auto split: prod.splits)
      then show ?thesis using Cons.IH by fastforce
    next
      fix p n
      assume named: "marker h c = Some p" "name p = Some n"
        and step: "scan ro h acc (c # cs) =
           (case assign ro acc n (children p) of
              Inl e \<Rightarrow> (c # cs, Inl e)
            | Inr acc' \<Rightarrow> (case scan ro h acc' cs of (ys, r) \<Rightarrow> (Null # ys, r)))"
      show ?thesis
      proof (cases "assign ro acc n (children p)")
        case (Inl e')
        then have "e = e'" using step Cons.prems by simp
        then show ?thesis using assign_error [OF Inl] by simp
      next
        case (Inr acc1)
        then obtain ys1 where rest: "scan ro h acc1 cs = (ys1, Inl e)"
          using step Cons.prems by (auto split: prod.splits)
        have "proto acc1 \<noteq> ObjectPrototype \<Longrightarrow>
            proto_marker h c \<or> proto acc \<noteq> ObjectPrototype"
          using assign_proto [OF Inr] named by (auto simp: proto_marker_def)
        then show ?thesis using Cons.IH [OF rest] by auto
      qed
    qed
  qed
qed

lemma scan_proto:
  "scan ro h acc xs = (ys, Inr acc') \<Longrightarrow> proto acc' \<noteq> ObjectPrototype \<Longrightarrow>
   list_ex (proto_marker h) xs \<or> proto acc \<noteq> ObjectPrototype"
proof (induction xs arbitrary: acc ys)
  case Nil
  then show ?case by simp
next
  case (Cons c cs)
  have "\<not> nullish c" "\<not> bad_marker h c"
    using scan_success [OF Cons.prems(1)] by simp_all
  from scan_step [OF this, of ro acc cs] show ?case
  proof (elim disjE exE conjE)
    assume "scan ro h acc (c # cs) = (case scan ro h acc cs of (ys, r) \<Rightarrow> (c # ys, r))"
    then obtain ys1 where "scan ro h acc cs = (ys1, Inr acc')"
      using Cons.prems(1) by (auto split: prod.splits)
    then show ?thesis using Cons.IH Cons.prems(2) by fastforce
  next
    fix p n
    assume named: "marker h c = Some p" "name p = Some n"
      and step: "scan ro h acc (c # cs) =
         (case assign ro acc n (children p) of
            Inl e \<Rightarrow> (c # cs, Inl e)
          | Inr acc' \<Rightarrow> (case scan ro h acc' cs of (ys, r) \<Rightarrow> (Null # ys, r)))"
    obtain acc1 ys1 where wr: "assign ro acc n (children p) = Inr acc1"
        and rest: "scan ro h acc1 cs = (ys1, Inr acc')"
      using step Cons.prems(1) by (auto split: sum.splits prod.splits)
    have "proto acc1 \<noteq> ObjectPrototype \<Longrightarrow>
        proto_marker h c \<or> proto acc \<noteq> ObjectPrototype"
      using assign_proto [OF wr] named by (auto simp: proto_marker_def)
    then show ?thesis using Cons.IH [OF rest Cons.prems(2)] by auto
  qed
qed

lemma scan_missing_name:
  "scan ro h acc xs = (ys, Inl MissingSlotName) \<Longrightarrow>
   \<exists>pre m post. xs = pre @ m # post \<and> bad_marker h m \<and>
     (\<forall>x\<in>set pre. \<not> nullish x \<and> \<not> bad_marker h x)"
proof (induction xs arbitrary: acc ys)
  case Nil
  then show ?case by simp
next
  case (Cons c cs)
  show ?case
  proof (cases "bad_marker h c")
    case True
    then have "c # cs = [] @ c # cs \<and> bad_marker h c \<and>
        (\<forall>x\<in>set []. \<not> nullish x \<and> \<not> bad_marker h x)"
      by simp
    then show ?thesis by blast
  next
    case False
    have nn: "\<not> nullish c"
      using Cons.prems by (auto split: if_splits)
    from scan_step [OF nn False, of ro acc cs]
    have "\<exists>acc1 ys1. scan ro h acc1 cs = (ys1, Inl MissingSlotName)"
    proof (elim disjE exE conjE)
      assume "scan ro h acc (c # cs) = (case scan ro h acc cs of (ys, r) \<Rightarrow> (c # ys, r))"
      then show ?thesis
        using Cons.prems by (auto split: prod.splits)
    next
      fix p n
      assume step: "scan ro h acc (c # cs) =
           (case assign ro acc n (children p) of
              Inl e \<Rightarrow> (c # cs, Inl e)
            | Inr acc' \<Rightarrow> (case scan ro h acc' cs of (ys, r) \<Rightarrow> (Null # ys, r)))"
      show ?thesis
      proof (cases "assign ro acc n (children p)")
        case (Inl e')
        then have "e' = MissingSlotName" using step Cons.prems by simp
        then show ?thesis using assign_error [OF Inl] by simp
      next
        case (Inr acc1)
        then show ?thesis
          using step Cons.prems by (auto split: prod.splits)
      qed
    qed
    then obtain acc1 ys1 where "scan ro h acc1 cs = (ys1, Inl MissingSlotName)"
      by blast
    then obtain pre m post where d: "cs = pre @ m # post" "bad_marker h m"
        "\<forall>x\<in>set pre. \<not> nullish x \<and> \<not> bad_marker h x"
      using Cons.IH by blast
    have "c # cs = (c # pre) @ m # post \<and> bad_marker h m \<and>
        (\<forall>x\<in>set (c # pre). \<not> nullish x \<and> \<not> bad_marker h x)"
      using d False nn by simp
    then show ?thesis by blast
  qed
qed

lemma scan_keeps_key:
  "scan ro h acc xs = (ys, Inr acc') \<Longrightarrow>
   \<forall>x\<in>set xs. \<forall>p. marker h x = Some p \<longrightarrow> name p \<noteq> Some k \<Longrightarrow>
   own acc' k = own acc k"
proof (induction xs arbitrary: acc ys)
  case Nil
  then show ?case by simp
next
  case (Cons c cs)
  show ?case
  proof (cases "marker h c")
    case None
    then obtain ys' where "scan ro h acc cs = (ys', Inr acc')"
      using Cons.prems(1) by (auto split: if_splits prod.splits)
    then show ?thesis using Cons.IH Cons.prems(2) by simp
  next
    case (Some p)
    then obtain n ys' acc1 where n: "name p = Some n"
        and wr: "assign ro acc n (children p) = Inr acc1"
        and rest: "scan ro h acc1 cs = (ys', Inr acc')"
      using Cons.prems(1) by (auto split: if_splits option.splits prod.splits sum.splits)
    have "n \<noteq> k" using Some n Cons.prems(2) by auto
    then have "own acc1 k = own acc k"
      using wr by (intro own_assign_other)
    moreover have "own acc' k = own acc1 k"
      using Cons.IH [OF rest] Cons.prems(2) by simp
    ultimately show ?thesis by simp
  qed
qed

lemma scan_append_success:
  "scan ro h acc (xs @ ys) = (zs, Inr acc') \<Longrightarrow>
   \<exists>xs' ys' acc1. scan ro h acc xs = (xs', Inr acc1) \<and> scan ro h acc1 ys = (ys', Inr acc')"
  by (auto simp: scan_append split: prod.splits sum.splits)

section \<open>Properties of findSlots\<close>

lemma normalized_array: "lookup h a = Some (Array xs) \<Longrightarrow> normalized h (Ref a) = xs"
  by (simp add: normalized_def elems_def)

lemma normalized_single: "\<not> isArray h x \<Longrightarrow> normalized h x = [x]"
  by (simp add: normalized_def)

lemma findSlots_success:
  assumes "findSlots ro h kids = (h', Inr out)"
  shows "\<exists>acc. scan ro h empty_object (normalized h kids) =
        (nullified h (normalized h kids), Inr acc) \<and>
      h' = h @ [Array (nullified h (normalized h kids)),
                Array (filter (\<lambda>x. \<not> is_marker h x) (normalized h kids))] \<and>
      assign ro acc ''default'' (Ref (Suc (length h))) = Inr out \<and>
      (\<forall>x\<in>set (normalized h kids). \<not> nullish x \<and> \<not> bad_marker h x)"
proof -
  obtain ys r where sc: "scan ro h empty_object (normalized h kids) = (ys, r)"
    by (cases "scan ro h empty_object (normalized h kids)")
  then obtain acc where r: "r = Inr acc"
    using assms by (cases r) (simp_all add: findSlots_scan)
  have ok: "ys = nullified h (normalized h kids) \<and>
      (\<forall>x\<in>set (normalized h kids). \<not> nullish x \<and> \<not> bad_marker h x)"
    using scan_success sc r by blast
  then have "filter (\<lambda>child. child \<noteq> Null) ys =
      filter (\<lambda>x. \<not> is_marker h x) (normalized h kids)"
    using filter_nullified by blast
  then show ?thesis
    using assms sc r ok by (auto simp: findSlots_scan)
qed

lemma findSlots_succeeds:
  assumes "\<forall>x\<in>set (normalized h kids).
      \<not> nullish x \<and> \<not> bad_marker h x \<and> \<not> proto_marker h x"
  shows "\<exists>h' out. findSlots ro h kids = (h', Inr out)"
proof -
  have "proto empty_object = ObjectPrototype"
    by (simp add: empty_object_def)
  then obtain acc where "scan ro h empty_object (normalized h kids) =
      (nullified h (normalized h kids), Inr acc)" "proto acc = ObjectPrototype"
    using scan_ok assms by blast
  then show ?thesis by (simp add: findSlots_scan assign_plain)
qed

text \<open>The definitions a concrete example unfolds.\<close>

lemmas example_simps =
  example_store_def span_def slot_def lookup_def normalized_def elems_def nullish_def
  is_marker_def bad_marker_def proto_marker_def unnamed_def nullified_def assign_def
  define_own_def set_prototype_def empty_object_def allocated_def production_def
  development_def

section \<open>Examples run on the code\<close>

text \<open>
  The example of the source's documentation, run on the embedding of the code itself:
  \<^verbatim>\<open>foo\<close> and \<^verbatim>\<open>bar\<close> are bound to the two spans inside the markers, \<^verbatim>\<open>default\<close> to
  a new array holding \<^verbatim>\<open><span>baz</span>\<close>; the working copy has its two marker
  positions nulled, and the caller's array at address 5 is as it was.
\<close>

lemma findSlots_documented_example:
  "findSlots (development example_store) example_store (Ref 5) =
    (example_store @ [Array [Null, Null, Ref 4], Array [Ref 4]],
     Inr \<lparr>own = [''foo'' \<mapsto> Ref 0, ''bar'' \<mapsto> Ref 2,
                 ''default'' \<mapsto> Ref (Suc (length example_store))],
          proto = ObjectPrototype\<rparr>)"
  by (simp add: findSlots_def alloc_def callback_def get_def put_def upt_rec example_simps)

text \<open>
  A rejected write. At \<^verbatim>\<open>[<Slot name="__proto__"><span>foo</span></Slot>, <Slot name="type">text</Slot>]\<close>
  the first marker makes the span the prototype of the slot map. Under the development
  build the span is frozen and owns the key \<^verbatim>\<open>type\<close>, so the write for the second marker
  throws; under the production build the write creates the own property. With a nameless
  marker appended, the development build throws that \<^verbatim>\<open>TypeError\<close> before the nameless
  marker is reached.
\<close>

lemma findSlots_rejected_write:
  "findSlots (development example_store) example_store (Ref 22) =
     (example_store @ [Array [Null, Ref 21]], Inl TypeError)"
  "findSlots production example_store (Ref 22) =
     (example_store @ [Array [Null, Null], Array []],
      Inr \<lparr>own = [''type'' \<mapsto> Str ''text'', ''default'' \<mapsto> Ref (Suc (length example_store))],
           proto = ObjectAt 0\<rparr>)"
  "snd (findSlots (development example_store) example_store (Ref 23)) = Inl TypeError"
  "snd (findSlots production example_store (Ref 23)) = Inl MissingSlotName"
  by (simp_all add: findSlots_scan example_simps)

section \<open>The claims\<close>

text \<open>
  C1 (amended). For every children sequence in which exactly one element is a Slot marker,
  with name \<^verbatim>\<open>foo\<close> and nested content \<open>C\<close>, and in which no element is \<^verbatim>\<open>null\<close> or
  \<^verbatim>\<open>undefined\<close>, \<^verbatim>\<open>findSlots\<close> returns a map with exactly the keys \<^verbatim>\<open>foo\<close>, bound to
  \<open>C\<close>, and \<^verbatim>\<open>default\<close>, bound to a new array of the remaining children in their original
  order.
\<close>

theorem findSlots_single_marker:
  assumes "lookup h a = Some (Array (pre @ m # post))"
    and "marker h m = Some p" and "name p = Some ''foo''"
    and "\<forall>x\<in>set (pre @ post). \<not> is_marker h x \<and> \<not> nullish x"
  shows "findSlots ro h (Ref a) =
    (h @ [Array (pre @ Null # post), Array (pre @ post)],
     Inr \<lparr>own = [''foo'' \<mapsto> children p, ''default'' \<mapsto> Ref (Suc (length h))],
          proto = ObjectPrototype\<rparr>)"
proof -
  have norm: "normalized h (Ref a) = pre @ m # post"
    using assms(1) by (rule normalized_array)
  have pre: "scan ro h acc pre = (pre, Inr acc)" for acc
    using assms(4) by (intro scan_plain) simp
  have post: "scan ro h acc post = (post, Inr acc)" for acc
    using assms(4) by (intro scan_plain) simp
  have wr: "assign ro empty_object ''foo'' (children p) =
      Inr (define_own empty_object ''foo'' (children p))"
    by (simp add: assign_plain empty_object_def)
  have "scan ro h empty_object (pre @ m # post) =
      (pre @ Null # post, Inr (define_own empty_object ''foo'' (children p)))"
    using assms(2,3) by (simp add: scan_append pre post scan_named_marker wr del: scan.simps)
  moreover have "filter (\<lambda>child. child \<noteq> Null) (pre @ Null # post) = pre @ post"
    using assms(4) by (simp add: filter_not_null)
  ultimately show ?thesis
    by (simp add: findSlots_scan norm assign_def define_own_def empty_object_def)
qed

text \<open>The theorem at \<^verbatim>\<open>[<span>baz</span>, <Slot name="foo">...</Slot>, 'text']\<close>.\<close>

theorem findSlots_single_marker_witness:
  "findSlots (development example_store) example_store (Ref 9) =
    (example_store @ [Array [Ref 4, Null, Str ''text''], Array [Ref 4, Str ''text'']],
     Inr \<lparr>own = [''foo'' \<mapsto> Ref 0, ''default'' \<mapsto> Ref (Suc (length example_store))],
          proto = ObjectPrototype\<rparr>)"
proof -
  have arr: "lookup example_store 9 = Some (Array ([Ref 4] @ Ref 1 # [Str ''text'']))"
    by (simp add: example_simps)
  have m: "marker example_store (Ref 1) = Some \<lparr>name = Some ''foo'', children = Ref 0\<rparr>"
    by (simp add: example_simps)
  have rest: "\<forall>x\<in>set ([Ref 4] @ [Str ''text'']).
      \<not> is_marker example_store x \<and> \<not> nullish x"
    by (simp add: example_simps)
  show ?thesis
    using findSlots_single_marker [OF arr m _ rest] by simp
qed

text \<open>
  C1 as stated fails at \<^verbatim>\<open>[<Slot name="foo">...</Slot>, null]\<close>: exactly one element is
  a marker, and the call raises a \<^verbatim>\<open>TypeError\<close> on reading \<^verbatim>\<open>null.type\<close>.
\<close>

theorem single_marker_then_null_raises:
  "lookup example_store 10 = Some (Array ([] @ Ref 1 # [Null])) \<and>
   marker example_store (Ref 1) = Some \<lparr>name = Some ''foo'', children = Ref 0\<rparr> \<and>
   \<not> is_marker example_store Null \<and>
   snd (findSlots production example_store (Ref 10)) = Inl TypeError"
  by (simp add: findSlots_scan example_simps)

text \<open>
  C2 (amended). \<^verbatim>\<open>findSlots\<close> raises \<open>MissingSlotName\<close> only if some element of the
  normalized children sequence is a Slot marker whose name is absent or the empty string
  and no element before the first such marker is \<^verbatim>\<open>null\<close> or \<^verbatim>\<open>undefined\<close>. When in
  addition no marker before it is named \<^verbatim>\<open>__proto__\<close>, the error is raised, and raised at
  that marker: the elements after it are not visited (the working copy keeps them as they
  were), no default array is allocated, and the result carries no slot map. A \<^verbatim>\<open>null\<close> or
  \<^verbatim>\<open>undefined\<close> element with no nameless marker before it makes \<^verbatim>\<open>findSlots\<close> raise a
  \<^verbatim>\<open>TypeError\<close> instead.
\<close>

theorem findSlots_missing_name:
  "(snd (findSlots ro h kids) = Inl MissingSlotName \<longrightarrow>
      (\<exists>pre m post. normalized h kids = pre @ m # post \<and> bad_marker h m \<and>
         (\<forall>x\<in>set pre. \<not> nullish x \<and> \<not> bad_marker h x))) \<and>
   (\<forall>pre m post. normalized h kids = pre @ m # post \<and> bad_marker h m \<and>
         (\<forall>x\<in>set pre. \<not> nullish x \<and> \<not> bad_marker h x \<and> \<not> proto_marker h x) \<longrightarrow>
      findSlots ro h kids = (h @ [Array (nullified h pre @ m # post)], Inl MissingSlotName)) \<and>
   (\<forall>pre n post. normalized h kids = pre @ n # post \<and> nullish n \<and>
         (\<forall>x\<in>set pre. \<not> bad_marker h x) \<longrightarrow>
      snd (findSlots ro h kids) = Inl TypeError)"
proof -
  have aborts: "findSlots ro h kids =
      (h @ [Array (nullified h pre @ m # post)], Inl MissingSlotName)"
    if norm: "normalized h kids = pre @ m # post" and bad: "bad_marker h m"
      and good: "\<forall>x\<in>set pre. \<not> nullish x \<and> \<not> bad_marker h x \<and> \<not> proto_marker h x"
    for pre m post
  proof -
    have "proto empty_object = ObjectPrototype"
      by (simp add: empty_object_def)
    then obtain acc where "scan ro h empty_object pre = (nullified h pre, Inr acc)"
      using scan_ok good by blast
    then have "scan ro h empty_object (pre @ m # post) =
        (nullified h pre @ m # post, Inl MissingSlotName)"
      using bad by (simp add: scan_append scan_bad_marker del: scan.simps)
    then show ?thesis
      by (simp add: findSlots_scan norm)
  qed
  have only: "\<exists>pre m post. normalized h kids = pre @ m # post \<and> bad_marker h m \<and>
         (\<forall>x\<in>set pre. \<not> nullish x \<and> \<not> bad_marker h x)"
    if raised: "snd (findSlots ro h kids) = Inl MissingSlotName"
  proof -
    obtain ys where "scan ro h empty_object (normalized h kids) = (ys, Inl MissingSlotName)"
      using raised
      by (auto simp: findSlots_scan split: prod.splits sum.splits dest: assign_error)
    then show ?thesis by (rule scan_missing_name)
  qed
  have null_first: "snd (findSlots ro h kids) = Inl TypeError"
    if norm: "normalized h kids = pre @ n # post" and null: "nullish n"
      and good: "\<forall>x\<in>set pre. \<not> bad_marker h x"
    for pre n post
  proof -
    obtain ys r where sc: "scan ro h empty_object pre = (ys, r)"
      by (cases "scan ro h empty_object pre")
    have "\<exists>zs. scan ro h empty_object (pre @ n # post) = (zs, Inl TypeError)"
    proof (cases r)
      case (Inl e)
      have "e \<noteq> MissingSlotName"
        using scan_error [of ro h empty_object pre ys e] sc Inl good
        by (auto simp: list_ex_iff)
      then have "e = TypeError" by (cases e) simp_all
      then show ?thesis using sc Inl by (simp add: scan_append del: scan.simps)
    next
      case (Inr acc)
      then show ?thesis using sc null by (simp add: scan_append)
    qed
    then show ?thesis
      by (auto simp: findSlots_scan norm)
  qed
  show ?thesis
  proof (intro conjI allI impI)
    assume "snd (findSlots ro h kids) = Inl MissingSlotName"
    then show "\<exists>pre m post. normalized h kids = pre @ m # post \<and> bad_marker h m \<and>
         (\<forall>x\<in>set pre. \<not> nullish x \<and> \<not> bad_marker h x)"
      by (rule only)
  next
    fix pre m post
    assume "normalized h kids = pre @ m # post \<and> bad_marker h m \<and>
         (\<forall>x\<in>set pre. \<not> nullish x \<and> \<not> bad_marker h x \<and> \<not> proto_marker h x)"
    then show "findSlots ro h kids =
        (h @ [Array (nullified h pre @ m # post)], Inl MissingSlotName)"
      by (intro aborts) simp_all
  next
    fix pre n post
    assume "normalized h kids = pre @ n # post \<and> nullish n \<and>
         (\<forall>x\<in>set pre. \<not> bad_marker h x)"
    then show "snd (findSlots ro h kids) = Inl TypeError"
      by (intro null_first [of pre n post]) simp_all
  qed
qed

text \<open>
  The theorem at \<^verbatim>\<open>[<span>baz</span>, <Slot name="">...</Slot>, <Slot name="foo">...</Slot>]\<close>,
  which raises \<open>MissingSlotName\<close>, and at \<^verbatim>\<open>['text', undefined]\<close>, which raises a
  \<^verbatim>\<open>TypeError\<close>.
\<close>

theorem findSlots_missing_name_witness:
  "findSlots (development example_store) example_store (Ref 12) =
     (example_store @ [Array [Ref 4, Ref 7, Ref 1]], Inl MissingSlotName) \<and>
   snd (findSlots (development example_store) example_store (Ref 15)) = Inl TypeError"
proof -
  note inst = findSlots_missing_name [of "development example_store" example_store]
  have "normalized example_store (Ref 12) = [Ref 4] @ Ref 7 # [Ref 1] \<and>
      bad_marker example_store (Ref 7) \<and>
      (\<forall>x\<in>set [Ref 4]. \<not> nullish x \<and> \<not> bad_marker example_store x \<and>
         \<not> proto_marker example_store x)"
    by (simp add: example_simps)
  then have "findSlots (development example_store) example_store (Ref 12) =
      (example_store @ [Array (nullified example_store [Ref 4] @ Ref 7 # [Ref 1])],
       Inl MissingSlotName)"
    using inst [of "Ref 12", THEN conjunct2, THEN conjunct1] by blast
  then have first: "findSlots (development example_store) example_store (Ref 12) =
     (example_store @ [Array [Ref 4, Ref 7, Ref 1]], Inl MissingSlotName)"
    by (simp add: example_simps)
  have "normalized example_store (Ref 15) = [Str ''text''] @ Undefined # [] \<and>
      nullish Undefined \<and> (\<forall>x\<in>set [Str ''text'']. \<not> bad_marker example_store x)"
    by (simp add: example_simps)
  then have "snd (findSlots (development example_store) example_store (Ref 15)) = Inl TypeError"
    using inst [of "Ref 15", THEN conjunct2, THEN conjunct2] by blast
  then show ?thesis
    using first by simp
qed

text \<open>
  C2 as stated fails at \<^verbatim>\<open>[null, <Slot name="">...</Slot>]\<close>: an element is a marker with
  an empty name, and the error raised is the \<^verbatim>\<open>TypeError\<close> of \<^verbatim>\<open>null.type\<close>, not
  \<open>MissingSlotName\<close>.
\<close>

theorem null_before_nameless_marker_raises_TypeError:
  "normalized example_store (Ref 11) = [Null, Ref 7] \<and>
   bad_marker example_store (Ref 7) \<and>
   snd (findSlots production example_store (Ref 11)) = Inl TypeError \<and>
   snd (findSlots production example_store (Ref 11)) \<noteq> Inl MissingSlotName"
  by (simp add: findSlots_scan example_simps)

text \<open>
  C3 (amended). For every children sequence containing no Slot markers and no element that
  is \<^verbatim>\<open>null\<close> or \<^verbatim>\<open>undefined\<close>, \<^verbatim>\<open>findSlots\<close> succeeds, the default entry is a new array
  with the same elements in the same order, and the output has no key other than
  \<^verbatim>\<open>default\<close>.
\<close>

theorem findSlots_no_markers:
  assumes "lookup h a = Some (Array xs)"
    and "\<forall>x\<in>set xs. \<not> is_marker h x \<and> \<not> nullish x"
  shows "findSlots ro h (Ref a) =
    (h @ [Array xs, Array xs],
     Inr \<lparr>own = [''default'' \<mapsto> Ref (Suc (length h))], proto = ObjectPrototype\<rparr>)"
proof -
  have "scan ro h empty_object xs = (xs, Inr empty_object)"
    using assms(2) by (rule scan_plain)
  moreover have "filter (\<lambda>child. child \<noteq> Null) xs = xs"
    using assms(2) by (simp add: filter_not_null)
  ultimately show ?thesis
    by (simp add: findSlots_scan normalized_array [OF assms(1)] assign_def define_own_def
        empty_object_def)
qed

text \<open>The theorem at \<^verbatim>\<open>[<span>baz</span>, 'text', 7]\<close>.\<close>

theorem findSlots_no_markers_witness:
  "findSlots (development example_store) example_store (Ref 13) =
    (example_store @ [Array [Ref 4, Str ''text'', Num 7], Array [Ref 4, Str ''text'', Num 7]],
     Inr \<lparr>own = [''default'' \<mapsto> Ref (Suc (length example_store))], proto = ObjectPrototype\<rparr>)"
proof -
  have arr: "lookup example_store 13 = Some (Array [Ref 4, Str ''text'', Num 7])"
    by (simp add: example_simps)
  have plain: "\<forall>x\<in>set [Ref 4, Str ''text'', Num 7].
      \<not> is_marker example_store x \<and> \<not> nullish x"
    by (simp add: example_simps)
  show ?thesis
    using findSlots_no_markers [OF arr plain] by simp
qed

text \<open>C3 as stated fails at \<^verbatim>\<open>[null]\<close>: no element is a marker, and the call raises.\<close>

theorem only_null_raises:
  "lookup example_store 14 = Some (Array [Null]) \<and>
   \<not> is_marker example_store Null \<and>
   snd (findSlots production example_store (Ref 14)) = Inl TypeError"
  by (simp add: findSlots_scan example_simps)

text \<open>
  C4 (amended). A child whose type is not the Slot marker and which is neither \<^verbatim>\<open>null\<close>
  nor \<^verbatim>\<open>undefined\<close> (a boolean, a number, a string, an array, an element of another
  type) never makes \<^verbatim>\<open>findSlots\<close> fail: the callback returns on it with the store and
  the slot map untouched, and when the call succeeds it is an element of the default
  group. The call has these error cases and no other: \<open>MissingSlotName\<close>, which needs a
  marker with an absent or empty name, and \<^verbatim>\<open>TypeError\<close>, which needs a \<^verbatim>\<open>null\<close> or
  \<^verbatim>\<open>undefined\<close> child or a marker named \<^verbatim>\<open>__proto__\<close> (after which a write to the slot
  map can be rejected). So the call succeeds when no child is \<^verbatim>\<open>null\<close> or
  \<^verbatim>\<open>undefined\<close>, no marker is nameless and none is named \<^verbatim>\<open>__proto__\<close>; and when it
  succeeds, no child is \<^verbatim>\<open>null\<close> or \<^verbatim>\<open>undefined\<close> and no marker is nameless.
\<close>

theorem findSlots_failures:
  "(\<forall>w acc c i. \<not> nullish c \<and> \<not> is_marker h c \<longrightarrow> callback ro w h acc c i = (h, Inr acc)) \<and>
   (\<forall>h' out. findSlots ro h kids = (h', Inr out) \<longrightarrow>
      (\<exists>d. own out ''default'' = Some (Ref d) \<and>
        (\<forall>x\<in>set (normalized h kids). \<not> is_marker h x \<longrightarrow> x \<in> set (elems h' d)))) \<and>
   (\<forall>e. snd (findSlots ro h kids) = Inl e \<longrightarrow>
      (e = MissingSlotName \<and> list_ex (bad_marker h) (normalized h kids)) \<or>
      (e = TypeError \<and>
        (list_ex nullish (normalized h kids) \<or> list_ex (proto_marker h) (normalized h kids)))) \<and>
   ((\<forall>x\<in>set (normalized h kids).
        \<not> nullish x \<and> \<not> bad_marker h x \<and> \<not> proto_marker h x) \<longrightarrow>
      (\<exists>out. snd (findSlots ro h kids) = Inr out)) \<and>
   ((\<exists>out. snd (findSlots ro h kids) = Inr out) \<longrightarrow>
      (\<forall>x\<in>set (normalized h kids). \<not> nullish x \<and> \<not> bad_marker h x))"
proof -
  have untouched: "callback ro w h acc c i = (h, Inr acc)"
    if "\<not> nullish c \<and> \<not> is_marker h c" for w acc c i
    using that by (simp add: callback_marker is_marker_def)
  have through: "\<exists>d. own out ''default'' = Some (Ref d) \<and>
        (\<forall>x\<in>set (normalized h kids). \<not> is_marker h x \<longrightarrow> x \<in> set (elems h' d))"
    if run: "findSlots ro h kids = (h', Inr out)" for h' out
  proof -
    obtain acc where h': "h' = h @ [Array (nullified h (normalized h kids)),
                Array (filter (\<lambda>x. \<not> is_marker h x) (normalized h kids))]"
      and out: "assign ro acc ''default'' (Ref (Suc (length h))) = Inr out"
      using findSlots_success [OF run] by blast
    have "own out ''default'' = Some (Ref (Suc (length h)))"
      using out by (rule own_assign_same) simp
    moreover have "elems h' (Suc (length h)) =
        filter (\<lambda>x. \<not> is_marker h x) (normalized h kids)"
      by (simp add: h' elems_def lookup_def nth_append)
    ultimately show ?thesis by simp
  qed
  have kinds: "(e = MissingSlotName \<and> list_ex (bad_marker h) (normalized h kids)) \<or>
      (e = TypeError \<and>
        (list_ex nullish (normalized h kids) \<or> list_ex (proto_marker h) (normalized h kids)))"
    if raised: "snd (findSlots ro h kids) = Inl e" for e
  proof -
    obtain ys r where sc: "scan ro h empty_object (normalized h kids) = (ys, r)"
      by (cases "scan ro h empty_object (normalized h kids)")
    have start: "proto empty_object = ObjectPrototype"
      by (simp add: empty_object_def)
    show ?thesis
    proof (cases r)
      case (Inl e')
      then have "e' = e"
        using raised sc by (simp add: findSlots_scan)
      then show ?thesis
        using scan_error [of ro h empty_object "normalized h kids" ys e] sc Inl start
        by auto
    next
      case (Inr acc)
      then have last: "assign ro acc ''default'' (Ref (Suc (length h))) = Inl e"
        using raised sc by (simp add: findSlots_scan)
      then have "e = TypeError" "proto acc \<noteq> ObjectPrototype"
        using assign_error by blast+
      then show ?thesis
        using scan_proto [of ro h empty_object "normalized h kids" ys acc] sc Inr start
        by auto
    qed
  qed
  have succeeds: "\<exists>out. snd (findSlots ro h kids) = Inr out"
    if good: "\<forall>x\<in>set (normalized h kids).
        \<not> nullish x \<and> \<not> bad_marker h x \<and> \<not> proto_marker h x"
  proof -
    obtain h' out where "findSlots ro h kids = (h', Inr out)"
      using findSlots_succeeds [OF good] by blast
    then show ?thesis by simp
  qed
  have ok: "\<forall>x\<in>set (normalized h kids). \<not> nullish x \<and> \<not> bad_marker h x"
    if returned: "\<exists>out. snd (findSlots ro h kids) = Inr out"
  proof -
    obtain out where "snd (findSlots ro h kids) = Inr out"
      using returned by blast
    then have "findSlots ro h kids = (fst (findSlots ro h kids), Inr out)"
      by (simp add: prod_eq_iff)
    then show ?thesis
      using findSlots_success by blast
  qed
  show ?thesis
  proof (intro conjI allI impI)
    fix w acc c i
    assume "\<not> nullish c \<and> \<not> is_marker h c"
    then show "callback ro w h acc c i = (h, Inr acc)"
      by (rule untouched)
  next
    fix h' out
    assume "findSlots ro h kids = (h', Inr out)"
    then show "\<exists>d. own out ''default'' = Some (Ref d) \<and>
        (\<forall>x\<in>set (normalized h kids). \<not> is_marker h x \<longrightarrow> x \<in> set (elems h' d))"
      by (rule through)
  next
    fix e
    assume "snd (findSlots ro h kids) = Inl e"
    then show "(e = MissingSlotName \<and> list_ex (bad_marker h) (normalized h kids)) \<or>
      (e = TypeError \<and>
        (list_ex nullish (normalized h kids) \<or> list_ex (proto_marker h) (normalized h kids)))"
      by (rule kinds)
  next
    assume "\<forall>x\<in>set (normalized h kids).
        \<not> nullish x \<and> \<not> bad_marker h x \<and> \<not> proto_marker h x"
    then show "\<exists>out. snd (findSlots ro h kids) = Inr out"
      by (rule succeeds)
  next
    assume "\<exists>out. snd (findSlots ro h kids) = Inr out"
    then show "\<forall>x\<in>set (normalized h kids). \<not> nullish x \<and> \<not> bad_marker h x"
      by (rule ok)
  qed
qed

text \<open>The theorem at \<^verbatim>\<open>[<span>baz</span>, 'text', 7]\<close>.\<close>

theorem findSlots_failures_witness:
  "\<exists>h' out d. findSlots (development example_store) example_store (Ref 13) = (h', Inr out) \<and>
     own out ''default'' = Some (Ref d) \<and>
     Ref 4 \<in> set (elems h' d) \<and> Str ''text'' \<in> set (elems h' d) \<and> Num 7 \<in> set (elems h' d)"
proof -
  note inst = findSlots_failures [of example_store "development example_store" "Ref 13"]
  have norm: "normalized example_store (Ref 13) = [Ref 4, Str ''text'', Num 7]"
    by (simp add: example_simps)
  have good: "\<forall>x\<in>set (normalized example_store (Ref 13)).
      \<not> nullish x \<and> \<not> bad_marker example_store x \<and> \<not> proto_marker example_store x"
    by (simp add: example_simps)
  have plain: "\<not> is_marker example_store (Ref 4)" "\<not> is_marker example_store (Str ''text'')"
      "\<not> is_marker example_store (Num 7)"
    by (simp_all add: example_simps)
  obtain out where "snd (findSlots (development example_store) example_store (Ref 13)) = Inr out"
    using inst [THEN conjunct2, THEN conjunct2, THEN conjunct2, THEN conjunct1] good
    by blast
  then have run: "findSlots (development example_store) example_store (Ref 13) =
      (fst (findSlots (development example_store) example_store (Ref 13)), Inr out)"
    by (simp add: prod_eq_iff)
  then obtain d where d: "own out ''default'' = Some (Ref d)"
      and through: "\<forall>x\<in>set (normalized example_store (Ref 13)).
         \<not> is_marker example_store x \<longrightarrow>
         x \<in> set (elems (fst (findSlots (development example_store) example_store (Ref 13))) d)"
    using inst [THEN conjunct2, THEN conjunct1] by blast
  have "Ref 4 \<in> set (elems (fst (findSlots (development example_store) example_store (Ref 13))) d)"
      "Str ''text'' \<in>
         set (elems (fst (findSlots (development example_store) example_store (Ref 13))) d)"
      "Num 7 \<in> set (elems (fst (findSlots (development example_store) example_store (Ref 13))) d)"
    using through plain unfolding norm by simp_all
  then show ?thesis
    using run d by blast
qed

text \<open>
  C4 as stated fails at \<^verbatim>\<open>['text', undefined]\<close>: \<^verbatim>\<open>undefined\<close> is not a marker, and the
  call fails on it.
\<close>

theorem undefined_child_raises:
  "lookup example_store 15 = Some (Array [Str ''text'', Undefined]) \<and>
   \<not> is_marker example_store Undefined \<and>
   snd (findSlots production example_store (Ref 15)) = Inl TypeError"
  by (simp add: findSlots_scan example_simps)

text \<open>
  C5. For every children sequence containing two Slot markers with the same name
  \<^verbatim>\<open>foo\<close>, nested contents \<open>C1\<close> then \<open>C2\<close> in sequence order (the second being the last
  marker of that name), the \<^verbatim>\<open>foo\<close> entry of the output is \<open>C2\<close>: the later marker
  overwrites the earlier one and nothing of \<open>C1\<close> is merged in.
\<close>

theorem findSlots_last_write_wins:
  assumes "lookup h a = Some (Array (pre @ m1 # mid @ m2 # post))"
    and "marker h m1 = Some p1" and "name p1 = Some ''foo''"
    and "marker h m2 = Some p2" and "name p2 = Some ''foo''"
    and "\<forall>x\<in>set post. \<forall>p. marker h x = Some p \<longrightarrow> name p \<noteq> Some ''foo''"
    and "findSlots ro h (Ref a) = (h', Inr out)"
  shows "own out ''foo'' = Some (children p2)"
proof -
  have norm: "normalized h (Ref a) = (pre @ m1 # mid) @ m2 # post"
    using assms(1) by (simp add: normalized_array)
  obtain acc zs where whole:
      "scan ro h empty_object ((pre @ m1 # mid) @ m2 # post) = (zs, Inr acc)"
      and out: "assign ro acc ''default'' (Ref (Suc (length h))) = Inr out"
    using findSlots_success [OF assms(7)] unfolding norm by blast
  obtain ys acc1 where "scan ro h acc1 (m2 # post) = (ys, Inr acc)"
    using scan_append_success [OF whole] by blast
  then obtain ys' acc2 where wr: "assign ro acc1 ''foo'' (children p2) = Inr acc2"
      and tail: "scan ro h acc2 post = (ys', Inr acc)"
    using assms(4,5)
    by (auto simp: scan_named_marker simp del: scan.simps split: prod.splits sum.splits)
  have "own acc ''foo'' = own acc2 ''foo''"
    using tail assms(6) by (rule scan_keeps_key)
  also have "\<dots> = Some (children p2)"
    using wr by (rule own_assign_same) simp
  finally have "own acc ''foo'' = Some (children p2)" .
  moreover have "own out ''foo'' = own acc ''foo''"
    using out by (rule own_assign_other) simp
  ultimately show ?thesis by simp
qed

text \<open>
  The theorem at
  \<^verbatim>\<open>[<Slot name="foo"><span>foo</span></Slot>, <span>baz</span>, <Slot name="foo">second</Slot>, <Slot name="bar">...</Slot>]\<close>.
\<close>

theorem findSlots_last_write_wins_witness:
  "\<exists>h' out. findSlots (development example_store) example_store (Ref 16) = (h', Inr out) \<and>
     own out ''foo'' = Some (Str ''second'')"
proof -
  have arr: "lookup example_store 16 = Some (Array ([] @ Ref 1 # [Ref 4] @ Ref 6 # [Ref 3]))"
    by (simp add: example_simps)
  have m1: "marker example_store (Ref 1) = Some \<lparr>name = Some ''foo'', children = Ref 0\<rparr>"
    by (simp add: example_simps)
  have m2: "marker example_store (Ref 6) =
      Some \<lparr>name = Some ''foo'', children = Str ''second''\<rparr>"
    by (simp add: example_simps)
  have post: "\<forall>x\<in>set [Ref 3]. \<forall>p. marker example_store x = Some p \<longrightarrow>
      name p \<noteq> Some ''foo''"
    by (simp add: example_simps)
  have "\<forall>x\<in>set (normalized example_store (Ref 16)).
      \<not> nullish x \<and> \<not> bad_marker example_store x \<and> \<not> proto_marker example_store x"
    by (simp add: example_simps)
  then obtain h' out where
    run: "findSlots (development example_store) example_store (Ref 16) = (h', Inr out)"
    using findSlots_succeeds by blast
  have "own out ''foo'' = Some (Str ''second'')"
    using findSlots_last_write_wins [OF arr m1 _ m2 _ post run] by simp
  then show ?thesis
    using run by blast
qed

text \<open>
  C6. For every single non-sequence child value \<open>X\<close>, \<^verbatim>\<open>findSlots(X)\<close> returns the same
  result as \<^verbatim>\<open>findSlots([X])\<close>: called in the same store, the two calls give the same
  outcome (the same error, or the same slot map with the same default group) and leave the
  same store behind.
\<close>

theorem findSlots_single_child:
  assumes "\<not> isArray h x" and "lookup h a = Some (Array [x])"
  shows "findSlots ro h x = findSlots ro h (Ref a)"
  using assms by (simp add: findSlots_scan normalized_single normalized_array)

text \<open>
  The theorem at the single child \<^verbatim>\<open><span>baz</span>\<close>, where both calls return, and at
  the single child \<^verbatim>\<open>null\<close>, where both raise.
\<close>

theorem findSlots_single_child_witness:
  "findSlots production example_store (Ref 4) = findSlots production example_store (Ref 18) \<and>
   findSlots production example_store Null = findSlots production example_store (Ref 14)"
proof -
  have "\<not> isArray example_store (Ref 4)" "lookup example_store 18 = Some (Array [Ref 4])"
    by (simp_all add: example_simps)
  then have "findSlots production example_store (Ref 4) =
      findSlots production example_store (Ref 18)"
    by (rule findSlots_single_child)
  moreover have "\<not> isArray example_store Null" "lookup example_store 14 = Some (Array [Null])"
    by (simp_all add: example_simps)
  then have "findSlots production example_store Null =
      findSlots production example_store (Ref 14)"
    by (rule findSlots_single_child)
  ultimately show ?thesis by simp
qed

text \<open>
  C7. For every children sequence on which \<^verbatim>\<open>findSlots\<close> succeeds, the default entry of
  the output is an array holding exactly the subsequence of the non-marker elements, in
  their original relative order.
\<close>

theorem findSlots_default_order:
  assumes "lookup h a = Some (Array xs)" and "findSlots ro h (Ref a) = (h', Inr out)"
  shows "\<exists>d. own out ''default'' = Some (Ref d) \<and>
    lookup h' d = Some (Array (filter (\<lambda>x. \<not> is_marker h x) xs))"
proof -
  obtain acc where
    h': "h' = h @ [Array (nullified h xs), Array (filter (\<lambda>x. \<not> is_marker h x) xs)]"
      and out: "assign ro acc ''default'' (Ref (Suc (length h))) = Inr out"
    using findSlots_success [OF assms(2)] unfolding normalized_array [OF assms(1)] by blast
  have "own out ''default'' = Some (Ref (Suc (length h)))"
    using out by (rule own_assign_same) simp
  moreover have "lookup h' (Suc (length h)) =
      Some (Array (filter (\<lambda>x. \<not> is_marker h x) xs))"
    by (simp add: h' lookup_def nth_append)
  ultimately show ?thesis by blast
qed

text \<open>
  The theorem at \<^verbatim>\<open>[A, <Slot name="bar">...</Slot>, B, C]\<close>: the default group is
  \<^verbatim>\<open>[A, B, C]\<close>.
\<close>

theorem findSlots_default_order_witness:
  "\<exists>h' out d. findSlots (development example_store) example_store (Ref 19) = (h', Inr out) \<and>
     own out ''default'' = Some (Ref d) \<and> lookup h' d = Some (Array [Ref 0, Ref 2, Ref 4])"
proof -
  have arr: "lookup example_store 19 = Some (Array [Ref 0, Ref 3, Ref 2, Ref 4])"
    by (simp add: example_simps)
  have rest: "filter (\<lambda>x. \<not> is_marker example_store x) [Ref 0, Ref 3, Ref 2, Ref 4] =
      [Ref 0, Ref 2, Ref 4]"
    by (simp add: example_simps)
  have "\<forall>x\<in>set (normalized example_store (Ref 19)).
      \<not> nullish x \<and> \<not> bad_marker example_store x \<and> \<not> proto_marker example_store x"
    by (simp add: example_simps)
  then obtain h' out where
    run: "findSlots (development example_store) example_store (Ref 19) = (h', Inr out)"
    using findSlots_succeeds by blast
  show ?thesis
    using findSlots_default_order [OF arr run] run unfolding rest by blast
qed

text \<open>
  C8. \<^verbatim>\<open>findSlots\<close> never mutates the caller's collection or any attribute of the
  original child nodes: whether it returns or raises, every object that was in the store
  before the call (the input array, the elements, their props) is in the final store
  unchanged, at the same address. All writes go to the two arrays allocated by the call.
\<close>

theorem findSlots_frame: "take (length h) (fst (findSlots ro h kids)) = h"
  by (simp add: findSlots_scan split: prod.splits sum.splits)

text \<open>
  C9. For every name and children, \<^verbatim>\<open>Slot\<close> returns a fragment whose content is exactly
  the given children, and it validates nothing: for an absent name and for an empty name
  it returns the fragment all the same (only its key differs).
\<close>

theorem Slot_renders_children:
  "(\<exists>k. Slot \<lparr>name = n, children = c\<rparr> = Element Fragment k \<lparr>name = None, children = c\<rparr>) \<and>
   Slot \<lparr>name = None, children = c\<rparr> =
     Element Fragment (Some ''slot#undefined'') \<lparr>name = None, children = c\<rparr> \<and>
   Slot \<lparr>name = Some [], children = c\<rparr> =
     Element Fragment (Some ''slot#'') \<lparr>name = None, children = c\<rparr>"
  by (simp add: Slot_def)



end
